theory Spec2Isabelle
  imports Main
begin

section \<open>Data model of \<open>lagom/experiment/run_experiment.py\<close>\<close>

text \<open>
  A configuration is a dictionary carrying the reserved key \<open>ID\<close>; the orchestration
  reads only \<open>config['ID']\<close> and echoes the remaining items. Seeds and IDs are Python
  integers. Paths are kept relative to \<open>log_path\<close>, one string per component.
\<close>

record config =
  ID :: int
  params :: "(string \<times> string) list"

type_synonym path = "string list"

type_synonym job = "nat \<times> config \<times> int"

datatype device = CPU | CUDA int

datatype error =
    FileExistsError
  | FileNotFoundError
  | AssertionError
  | ZeroDivisionError
  | ValueError
  | TypeError
  | RuntimeError
  | StopIteration
  | RunError string

text \<open>
  Everything the orchestration does besides returning a value is logged as an event, in
  program order. Events inside \<open>_run\<close> carry the id of the job they belong to.
\<close>

datatype job_event =
    SetNumThreads nat
  | SetDevice int
  | PrintJob
  | Call device path
  | EmptyCache

datatype event =
    AskClean
  | Rmtree
  | RenameOld
  | MkdirRoot
  | PrintBackup
  | WaitEnter
  | Mkdir path
  | CopySources
  | YamlDump path
  | PickleDump path
  | PoolCreate int
  | Job nat job_event
  | PrintFinished

text \<open>
  The part of the world the function reads: \<open>torch.cuda.device_count()\<close>, whether
  \<open>log_path\<close> exists, the operator's answer to \<open>ask_yes_or_no\<close>, the two
  serialisation helpers of \<open>lagom.utils\<close>, whose code is outside the files at hand (each
  is a parameter that, given the directory tree and the file to write, fails or not), and
  which results of the run function the \<open>pickle\<close> module can serialise. The exceptions
  of \<open>error\<close> all pickle; \<open>RunError\<close> stands for an exception of the run function
  that does.
\<close>

record 'r env =
  num_gpu :: nat
  log_exists :: bool
  answer :: bool
  yaml_dump :: "path list \<Rightarrow> path \<Rightarrow> error option"
  pickle_dump :: "path list \<Rightarrow> path \<Rightarrow> error option"
  picklable :: "'r \<Rightarrow> bool"

section \<open>Path components: \<open>f'{ID}'\<close> and \<open>f'{seed}'\<close>\<close>

definition digit_char :: "nat \<Rightarrow> char" where
  "digit_char d = ''0123456789'' ! d"

fun digits :: "nat \<Rightarrow> string" where
  "digits n = (if n < 10 then [digit_char n] else digits (n div 10) @ [digit_char (n mod 10)])"

declare digits.simps [simp del]

definition str_int :: "int \<Rightarrow> string" where
  "str_int i = (if i < 0 then CHR ''-'' # digits (nat (- i)) else digits (nat i))"

definition leaf :: "config \<Rightarrow> int \<Rightarrow> path" where
  "leaf c seed = [str_int (ID c), str_int seed]"

section \<open>Lines 68-98: the directory tree\<close>

text \<open>
  Lines 70-83. After either branch \<open>log_path\<close> is a fresh, empty directory; the tree
  below it is the empty list.
\<close>

definition prepare_root :: "'r env \<Rightarrow> event list" where
  "prepare_root e =
     (if \<not> log_exists e then [MkdirRoot]
      else if answer e then [AskClean, Rmtree, MkdirRoot]
      else [AskClean, RenameOld, MkdirRoot, PrintBackup, WaitEnter])"

text \<open>
  \<open>Path.mkdir(parents=True)\<close> with the default \<open>exist_ok=False\<close>: an existing
  path raises \<open>FileExistsError\<close>; otherwise the missing ancestors and the path are made.
\<close>

fun ancestors :: "path \<Rightarrow> path list" where
  "ancestors [] = []"
| "ancestors (x # xs) = [x] # map ((#) x) (ancestors xs)"

definition mkdir_parents :: "path list \<Rightarrow> path \<Rightarrow> error + path list" where
  "mkdir_parents fs p =
     (if p \<in> set fs then Inl FileExistsError
      else Inr (fs @ filter (\<lambda>q. q \<notin> set fs) (ancestors p)))"

text \<open>Lines 93-95: the inner loop over the seeds of one configuration.\<close>

fun make_seed_dirs :: "path list \<Rightarrow> config \<Rightarrow> int list \<Rightarrow> (error + path list) \<times> event list" where
  "make_seed_dirs fs c [] = (Inr fs, [])"
| "make_seed_dirs fs c (seed # seeds) =
     (case mkdir_parents fs (leaf c seed) of
        Inl err \<Rightarrow> (Inl err, [])
      | Inr fs' \<Rightarrow>
          (case make_seed_dirs fs' c seeds of
             (r, evs) \<Rightarrow> (r, Mkdir (leaf c seed) # evs)))"

text \<open>Lines 91-96: the outer loop, with the \<open>yaml_dump\<close> of each configuration.\<close>

fun make_dirs :: "'r env \<Rightarrow> path list \<Rightarrow> config list \<Rightarrow> int list \<Rightarrow> (error + path list) \<times> event list" where
  "make_dirs e fs [] seeds = (Inr fs, [])"
| "make_dirs e fs (c # cs) seeds =
     (case make_seed_dirs fs c seeds of
        (Inl err, evs) \<Rightarrow> (Inl err, evs)
      | (Inr fs1, evs) \<Rightarrow>
          (let f = [str_int (ID c), ''config.yml''] in
           case yaml_dump e fs1 f of
             Some err \<Rightarrow> (Inl err, evs)
           | None \<Rightarrow>
               (case make_dirs e (fs1 @ [f]) cs seeds of
                  (r, evs') \<Rightarrow> (r, evs @ YamlDump f # evs'))))"

text \<open>Lines 68-98 together.\<close>

definition prepare :: "'r env \<Rightarrow> config list \<Rightarrow> int list \<Rightarrow> (error + path list) \<times> event list" where
  "prepare e configs seeds =
     (let evs0 = prepare_root e @ [Mkdir [''source_files''], CopySources] in
      case make_dirs e [[''source_files'']] configs seeds of
        (Inl err, evs) \<Rightarrow> (Inl err, evs0 @ evs)
      | (Inr fs, evs) \<Rightarrow>
          (case pickle_dump e fs [''configs.pkl''] of
             Some err \<Rightarrow> (Inl err, evs0 @ evs)
           | None \<Rightarrow> (Inr (fs @ [[''configs.pkl'']]), evs0 @ evs @ [PickleDump [''configs.pkl'']])))"

section \<open>Line 101: job enumeration\<close>

definition jobs_of :: "config list \<Rightarrow> int list \<Rightarrow> job list" where
  "jobs_of configs seeds = enumerate 0 (List.product configs seeds)"

section \<open>Lines 103-132: \<open>_run\<close>\<close>

text \<open>
  Lines 110-120. \<open>job_id % num_gpu\<close> and \<open>job_id % len(gpu_ids)\<close> raise
  \<open>ZeroDivisionError\<close> on a zero divisor; \<open>all([])\<close> is true, so an empty \<open>gpu_ids\<close>
  passes the assertion and fails at the modulo.
\<close>

definition assign_device :: "nat \<Rightarrow> bool \<Rightarrow> int list option \<Rightarrow> nat \<Rightarrow> error + device" where
  "assign_device k use_gpu gpu_ids job_id =
     (if use_gpu then
        (case gpu_ids of
           None \<Rightarrow>
             (if k = 0 then Inl ZeroDivisionError
              else Inr (CUDA (int (job_id mod k))))
         | Some ids \<Rightarrow>
             (if \<not> list_all (\<lambda>i. i \<ge> 0 \<and> i < int k) ids then Inl AssertionError
              else if length ids = 0 then Inl ZeroDivisionError
              else Inr (CUDA (ids ! (job_id mod length ids)))))
      else Inr CPU)"

definition device_events :: "device \<Rightarrow> job_event list" where
  "device_events d = (case d of CPU \<Rightarrow> [] | CUDA i \<Rightarrow> [SetDevice i])"

definition inner_run ::
  "'r env \<Rightarrow> bool \<Rightarrow> int list option \<Rightarrow> (config \<Rightarrow> int \<Rightarrow> device \<Rightarrow> path \<Rightarrow> error + 'r) \<Rightarrow> job
     \<Rightarrow> (error + 'r) \<times> event list" where
  "inner_run e use_gpu gpu_ids run jb =
     (case jb of (job_id, c, seed) \<Rightarrow>
        (case assign_device (num_gpu e) use_gpu gpu_ids job_id of
           Inl err \<Rightarrow> (Inl err, [Job job_id (SetNumThreads 1)])
         | Inr d \<Rightarrow>
             (let pre = [SetNumThreads 1] @ device_events d @ [PrintJob, Call d (leaf c seed)] in
              case run c seed d (leaf c seed) of
                Inl err \<Rightarrow> (Inl err, map (Job job_id) pre)
              | Inr result \<Rightarrow>
                  (Inr result, map (Job job_id) (pre @ (if use_gpu then [EmptyCache] else []))))))"

section \<open>Lines 134-138: dispatch\<close>

text \<open>Line 135: the list comprehension stops at the first job that raises.\<close>

fun serial :: "(job \<Rightarrow> (error + 'r) \<times> event list) \<Rightarrow> job list \<Rightarrow> (error + 'r list) \<times> event list" where
  "serial f [] = (Inr [], [])"
| "serial f (j # js) =
     (case f j of
        (Inl err, evs) \<Rightarrow> (Inl err, evs)
      | (Inr r, evs) \<Rightarrow>
          (case serial f js of
             (Inl err, evs') \<Rightarrow> (Inl err, evs @ evs')
           | (Inr rs, evs') \<Rightarrow> (Inr (r # rs), evs @ evs')))"

text \<open>
  Lines 137-138. The pool and its \<open>map\<close> are the standard library's
  (\<open>concurrent.futures\<close>). The constructor raises \<open>ValueError\<close> when
  \<open>max_workers \<le> 0\<close>. \<open>map\<close> raises \<open>ValueError\<close> when \<open>chunksize < 1\<close>; it cuts
  the jobs into chunks of \<open>chunksize\<close> (the last one shorter) and submits one future per
  chunk. \<open>CloudpickleWrapper(_run)\<close> and the jobs are taken to reach the workers: the
  wrapper is there for the function, and a job is an integer, a configuration and a seed.
\<close>

function chunks :: "nat \<Rightarrow> 'a list \<Rightarrow> 'a list list" where
  "chunks k xs = (if k = 0 \<or> xs = [] then [] else take k xs # chunks k (drop k xs))"
  by pat_completeness auto
termination
  by (relation "measure (\<lambda>(k, xs). length xs)") auto

declare chunks.simps [simp del]

text \<open>
  A worker process handles a chunk as \<open>[fn(*args) for args in chunk]\<close> and sends the list
  of results back to the caller pickled: when one of the results does not pickle, the
  chunk's future fails with \<open>TypeError\<close>. An exception of a job is sent back as it is.
\<close>

definition process_chunk ::
  "('r \<Rightarrow> bool) \<Rightarrow> (job \<Rightarrow> (error + 'r) \<times> event list) \<Rightarrow> job list
     \<Rightarrow> (error + 'r list) \<times> event list" where
  "process_chunk pk f c =
     (case serial f c of
        (Inl err, evs) \<Rightarrow> (Inl err, evs)
      | (Inr rs, evs) \<Rightarrow> (if list_all pk rs then Inr rs else Inl TypeError, evs))"

text \<open>
  The caller takes the results of the futures in submission order, inside a generator: the
  exception of the first future that failed is raised again there, and a
  \<open>StopIteration\<close> raised inside a generator reaches the caller as \<open>RuntimeError\<close>. A
  future that never completes (\<open>None\<close>) blocks the caller for ever.
\<close>

definition reraise :: "error \<Rightarrow> error" where
  "reraise err = (if err = StopIteration then RuntimeError else err)"

fun drain :: "(error + 'r list) option list \<Rightarrow> (error + 'r list) option" where
  "drain [] = Some (Inr [])"
| "drain (None # futs) = None"
| "drain (Some (Inl err) # futs) = Some (Inl (reraise err))"
| "drain (Some (Inr rs) # futs) =
     (case drain futs of
        None \<Rightarrow> None
      | Some (Inl err) \<Rightarrow> Some (Inl err)
      | Some (Inr rest) \<Rightarrow> Some (Inr (rs @ rest)))"

text \<open>
  When a future has failed, the generator cancels the futures after it that are still
  pending; a chunk that a worker has already taken runs to the end. Which of the later
  chunks had been taken by then, and how the events of the workers interleave, is the
  scheduler's choice \<open>sched\<close>: a later chunk has run when \<open>sched\<close> names it, and each
  occurrence of a chunk in \<open>sched\<close> lets that chunk's worker make its next step; what
  is left of the chunks that run follows. \<open>first_failure\<close> is the position of the first
  failed future (the number of futures when none fails). The chunks up to the first failed
  one always run. Every run of the real pool is one of these: the real pool hands the chunks
  out in submission order and to at most \<open>max_workers\<close> workers at a time, which only
  leaves fewer choices to the scheduler.
\<close>

fun first_failure :: "(error + 'a) list \<Rightarrow> nat" where
  "first_failure [] = 0"
| "first_failure (Inl err # outs) = 0"
| "first_failure (Inr x # outs) = Suc (first_failure outs)"

fun interleave :: "nat list \<Rightarrow> event list list \<Rightarrow> event list" where
  "interleave [] logs = concat logs"
| "interleave (i # is) logs =
     (if i < length logs then
        (case logs ! i of
           [] \<Rightarrow> interleave is logs
         | ev # rest \<Rightarrow> ev # interleave is (logs[i := rest]))
      else interleave is logs)"

definition pooled ::
  "('r \<Rightarrow> bool) \<Rightarrow> (job \<Rightarrow> (error + 'r) \<times> event list) \<Rightarrow> int \<Rightarrow> int \<Rightarrow> nat list \<Rightarrow> job list
     \<Rightarrow> (error + 'r list) option \<times> event list" where
  "pooled pk f max_workers chunksize sched jobs =
     (let n = min max_workers (int (length jobs)) in
      if n \<le> 0 then (Some (Inl ValueError), [])
      else if chunksize < 1 then (Some (Inl ValueError), [PoolCreate n])
      else
        (let work = map (process_chunk pk f) (chunks (nat chunksize) jobs);
             k = first_failure (map fst work);
             ran = (\<lambda>i. i \<le> k \<or> i \<in> set sched)
         in (drain (map (\<lambda>i. if ran i then Some (fst (work ! i)) else None) [0 ..< length work]),
             PoolCreate n
               # interleave sched
                   (map (\<lambda>i. if ran i then snd (work ! i) else []) [0 ..< length work]))))"

text \<open>Lines 134-138. \<open>pk\<close> tells which results pickle.\<close>

definition dispatch ::
  "('r \<Rightarrow> bool) \<Rightarrow> (job \<Rightarrow> (error + 'r) \<times> event list) \<Rightarrow> int option \<Rightarrow> int \<Rightarrow> nat list \<Rightarrow> job list
     \<Rightarrow> (error + 'r list) option \<times> event list" where
  "dispatch pk f max_workers chunksize sched jobs =
     (case max_workers of
        None \<Rightarrow> (case serial f jobs of (r, evs) \<Rightarrow> (Some r, evs))
      | Some mw \<Rightarrow> pooled pk f mw chunksize sched jobs)"

section \<open>Lines 19-140: \<open>run_experiment\<close>\<close>

definition run_experiment ::
  "'r env \<Rightarrow> nat list \<Rightarrow> (config \<Rightarrow> int \<Rightarrow> device \<Rightarrow> path \<Rightarrow> error + 'r) \<Rightarrow> config list \<Rightarrow> int list
     \<Rightarrow> int option \<Rightarrow> int \<Rightarrow> bool \<Rightarrow> int list option
     \<Rightarrow> (error + 'r list) option \<times> event list" where
  "run_experiment e sched run configs seeds max_workers chunksize use_gpu gpu_ids =
     (case prepare e configs seeds of
        (Inl err, evs) \<Rightarrow> (Some (Inl err), evs)
      | (Inr fs, evs) \<Rightarrow>
          (case dispatch (picklable e) (inner_run e use_gpu gpu_ids run) max_workers chunksize sched
                  (jobs_of configs seeds) of
             (Some (Inr results), evs') \<Rightarrow> (Some (Inr results), evs @ evs' @ [PrintFinished])
           | (r, evs') \<Rightarrow> (r, evs @ evs')))"

section \<open>Reading the event log\<close>

text \<open>The ids of the jobs that entered \<open>_run\<close>, and of those whose \<open>run\<close> was called.\<close>

fun started :: "event list \<Rightarrow> nat list" where
  "started [] = []"
| "started (Job i (SetNumThreads n) # evs) = i # started evs"
| "started (ev # evs) = started evs"

fun is_call :: "event \<Rightarrow> bool" where
  "is_call (Job i (Call d p)) = True"
| "is_call ev = False"

text \<open>
  A run function for examples: it raises on seed 2 and returns \<open>ID + seed\<close> otherwise.
\<close>

definition run_demo :: "config \<Rightarrow> int \<Rightarrow> device \<Rightarrow> path \<Rightarrow> error + int" where
  "run_demo c seed d logdir = (if seed = 2 then Inl (RunError ''seed 2'') else Inr (ID c + seed))"


text \<open>
  Modelled from the spec: \<open>yaml_dump\<close> and \<open>pickle_dump\<close> of \<open>lagom.utils\<close> are
  not among the source files. The spec has them serialise a value to a file at the given
  path and lets I/O errors reach the caller. Writing a file creates no directory: the file
  is written when its directory is \<open>log_path\<close> itself or is in the tree, and
  \<open>FileNotFoundError\<close> is raised otherwise.
\<close>

definition write_file :: "path list \<Rightarrow> path \<Rightarrow> error option" where
  "write_file fs f =
     (if butlast f = [] \<or> butlast f \<in> set fs then None else Some FileNotFoundError)"

text \<open>
  An environment for examples: \<open>k\<close> accelerators, no \<open>log_path\<close> yet, the helpers
  as above, and every result pickles.
\<close>

definition env_demo :: "nat \<Rightarrow> int env" where
  "env_demo k =
     \<lparr>num_gpu = k, log_exists = False, answer = False,
      yaml_dump = write_file, pickle_dump = write_file, picklable = (\<lambda>r. True)\<rparr>"

definition cfg :: "int \<Rightarrow> config" where
  "cfg i = \<lparr>ID = i, params = []\<rparr>"

section \<open>Theorems\<close>

subsection \<open>Serial execution of a job list\<close>

lemma serial_append:
  "serial f (xs @ ys) =
     (case serial f xs of
        (Inl err, evs) \<Rightarrow> (Inl err, evs)
      | (Inr rs, evs) \<Rightarrow>
          (case serial f ys of
             (Inl err, evs') \<Rightarrow> (Inl err, evs @ evs')
           | (Inr rs', evs') \<Rightarrow> (Inr (rs @ rs'), evs @ evs')))"
  by (induction xs) (auto split: prod.splits sum.splits)

lemma serial_all_ok:
  assumes "\<forall>j \<in> set js. \<exists>r. fst (f j) = Inr r"
  shows "serial f js = (Inr (map (\<lambda>j. projr (fst (f j))) js), concat (map (\<lambda>j. snd (f j)) js))"
  using assms
proof (induction js)
  case Nil
  then show ?case by simp
next
  case (Cons j js)
  then obtain r where r: "fst (f j) = Inr r" by auto
  obtain evs where fj: "f j = (Inr r, evs)" using r by (cases "f j") auto
  have ih: "serial f js = (Inr (map (\<lambda>j. projr (fst (f j))) js), concat (map (\<lambda>j. snd (f j)) js))"
    using Cons by simp
  show ?case using ih by (simp add: fj)
qed

lemma serial_first_failure:
  assumes "\<forall>j \<in> set pre. \<exists>r. fst (f j) = Inr r" and "fst (f j) = Inl err"
  shows "serial f (pre @ j # post) = (Inl err, concat (map (\<lambda>j. snd (f j)) (pre @ [j])))"
proof -
  obtain evs where fj: "f j = (Inl err, evs)" using assms(2) by (cases "f j") auto
  have "serial f (j # post) = (Inl err, snd (f j))"
    by (simp add: fj)
  then show ?thesis
    by (simp add: serial_append serial_all_ok [OF assms(1)])
qed

lemma serial_events_subset:
  "set (snd (serial f js)) \<subseteq> (\<Union>j \<in> set js. set (snd (f j)))"
  by (induction js) (auto split: prod.splits sum.splits)





lemma dispatch_serial_fst:
  "fst (dispatch pk f None chunksize sched jobs) = Some (fst (serial f jobs))"
  and dispatch_serial_snd: "snd (dispatch pk f None chunksize sched jobs) = snd (serial f jobs)"
  by (simp_all add: dispatch_def split: prod.splits)

subsection \<open>The pool\<close>



lemma chunks_Cons:
  "0 < k \<Longrightarrow> chunks k (x # xs) = (x # take (k - 1) xs) # chunks k (drop (k - 1) xs)"
  by (subst chunks.simps) (cases k; simp)

lemma set_chunks: "c \<in> set (chunks k xs) \<Longrightarrow> set c \<subseteq> set xs"
proof (induction k xs rule: chunks.induct)
  case (1 k xs)
  show ?case
  proof (cases "k = 0 \<or> xs = []")
    case True
    with 1(2) show ?thesis by (simp add: chunks.simps)
  next
    case False
    from 1(2) False have "c = take k xs \<or> c \<in> set (chunks k (drop k xs))"
      by (subst (asm) chunks.simps) auto
    then show ?thesis
    proof
      assume "c = take k xs"
      then show ?thesis by (auto dest: in_set_takeD)
    next
      assume "c \<in> set (chunks k (drop k xs))"
      with 1(1) False have "set c \<subseteq> set (drop k xs)" by simp
      then show ?thesis by (auto dest: in_set_dropD)
    qed
  qed
qed

lemma process_chunk_events: "snd (process_chunk pk f c) = snd (serial f c)"
  by (cases "serial f c") (auto simp: process_chunk_def split: sum.splits)

lemma process_chunk_Inl:
  assumes "fst (serial f c) = Inl err"
  shows "fst (process_chunk pk f c) = Inl err"
proof -
  obtain evs where "serial f c = (Inl err, evs)" using assms by (cases "serial f c") auto
  then show ?thesis by (simp add: process_chunk_def)
qed



lemma drain_ran:
  assumes "\<forall>i \<le> first_failure outs. P i"
  shows "drain (map (\<lambda>i. if P i then Some (outs ! i) else None) [0 ..< length outs])
           = drain (map Some outs)"
  using assms
proof (induction outs arbitrary: P)
  case Nil
  then show ?case by simp
next
  case (Cons out outs)
  have upt: "[0 ..< Suc (length outs)] = 0 # map Suc [0 ..< length outs]"
    by (simp add: upt_conv_Cons map_Suc_upt del: upt_Suc)
  have P0: "P 0" using Cons.prems by simp
  show ?case
  proof (cases out)
    case (Inl err)
    then show ?thesis using P0 by (simp add: upt del: upt_Suc cong: if_cong)
  next
    case (Inr rs)
    with Cons.prems have "\<forall>i \<le> first_failure outs. P (Suc i)" by auto
    from Cons.IH [of "\<lambda>i. P (Suc i)", OF this]
    have "drain (map (\<lambda>i. if P (Suc i) then Some (outs ! i) else None) [0 ..< length outs])
            = drain (map Some outs)" .
    then show ?thesis using P0 Inr by (simp add: upt comp_def del: upt_Suc cong: if_cong)
  qed
qed

lemma drain_returns: "\<exists>r. drain (map Some outs) = Some r"
  by (induction outs rule: first_failure.induct) (auto split: option.splits sum.splits)


lemma set_interleave: "set (interleave sched logs) \<subseteq> (\<Union>l \<in> set logs. set l)"
proof (induction sched arbitrary: logs)
  case Nil
  then show ?case by auto
next
  case (Cons i sched)
  note IH = Cons.IH
  show ?case
  proof (cases "i < length logs")
    case False
    then show ?thesis using IH [of logs] by simp
  next
    case True
    show ?thesis
    proof (cases "logs ! i")
      case Nil
      then show ?thesis using True IH [of logs] by simp
    next
      case (Cons ev rest)
      have mem: "ev # rest \<in> set logs" using True Cons by (metis nth_mem)
      have upd: "set (logs[i := rest]) \<subseteq> insert rest (set logs)"
        by (rule set_update_subset_insert)
      have step: "(\<Union>l \<in> set (logs[i := rest]). set l) \<subseteq> (\<Union>l \<in> set logs. set l)"
      proof
        fix x assume "x \<in> (\<Union>l \<in> set (logs[i := rest]). set l)"
        then obtain l where l: "l \<in> set (logs[i := rest])" "x \<in> set l" by blast
        from l(1) upd have "l = rest \<or> l \<in> set logs" by blast
        then show "x \<in> (\<Union>l \<in> set logs. set l)"
        proof
          assume "l = rest"
          then have "x \<in> set (ev # rest)" using l(2) by simp
          with mem show ?thesis by blast
        next
          assume "l \<in> set logs"
          with l(2) show ?thesis by blast
        qed
      qed
      have ev: "ev \<in> (\<Union>l \<in> set logs. set l)"
      proof -
        have "ev \<in> set (ev # rest)" by simp
        with mem show ?thesis by blast
      qed
      have "interleave (i # sched) logs = ev # interleave sched (logs[i := rest])"
        using True Cons by simp
      then show ?thesis using IH [of "logs[i := rest]"] step ev by auto
    qed
  qed
qed

lemma drain_ran_work:
  assumes "\<forall>i \<le> first_failure (map fst work). P i"
  shows "drain (map (\<lambda>i. if P i then Some (fst (work ! i)) else None) [0 ..< length work])
           = drain (map Some (map fst work))"
proof -
  have "map (\<lambda>i. if P i then Some (fst (work ! i)) else None) [0 ..< length work]
          = map (\<lambda>i. if P i then Some (map fst work ! i) else None) [0 ..< length (map fst work)]"
    by (rule map_cong) auto
  then show ?thesis using drain_ran [OF assms] by (simp only:)
qed

lemma pooled_outcome:
  assumes "0 < min mw (int (length jobs))" and "1 \<le> chunksize"
  shows "fst (pooled pk f mw chunksize sched jobs)
           = drain (map Some (map (\<lambda>c. fst (process_chunk pk f c)) (chunks (nat chunksize) jobs)))"
proof -
  define work where "work = map (process_chunk pk f) (chunks (nat chunksize) jobs)"
  define ran where "ran = (\<lambda>i. i \<le> first_failure (map fst work) \<or> i \<in> set sched)"
  have n: "\<not> min mw (int (length jobs)) \<le> 0" "\<not> chunksize < 1"
    using assms by (simp_all add: not_le not_less)
  have "fst (pooled pk f mw chunksize sched jobs)
          = drain (map (\<lambda>i. if ran i then Some (fst (work ! i)) else None) [0 ..< length work])"
    unfolding pooled_def Let_def work_def ran_def by (simp only: n if_False fst_conv)
  also have "\<dots> = drain (map Some (map fst work))"
    by (rule drain_ran_work) (simp add: ran_def)
  also have "map fst work = map (\<lambda>c. fst (process_chunk pk f c)) (chunks (nat chunksize) jobs)"
    by (simp add: work_def)
  finally show ?thesis .
qed


lemma pooled_first_job_fails:
  assumes "0 < min mw (int (length (j # js)))" and "1 \<le> chunksize" and "fst (f j) = Inl err"
  shows "fst (pooled pk f mw chunksize sched (j # js)) = Some (Inl (reraise err))"
proof -
  have k: "0 < nat chunksize" using assms(2) by simp
  obtain evs where fj: "f j = (Inl err, evs)" using assms(3) by (cases "f j") auto
  have "fst (serial f (j # take (nat chunksize - 1) js)) = Inl err" by (simp add: fj)
  then have "fst (process_chunk pk f (j # take (nat chunksize - 1) js)) = Inl err"
    by (rule process_chunk_Inl)
  then show ?thesis
    by (simp add: pooled_outcome [OF assms(1,2)] chunks_Cons [OF k])
qed

lemma pooled_returns:
  "\<exists>r. fst (pooled pk f mw chunksize sched jobs) = Some r"
proof (cases "0 < min mw (int (length jobs)) \<and> 1 \<le> chunksize")
  case True
  then show ?thesis
    using drain_returns [of "map (\<lambda>c. fst (process_chunk pk f c)) (chunks (nat chunksize) jobs)"]
    by (simp only: pooled_outcome)
next
  case False
  then show ?thesis by (auto simp: pooled_def Let_def)
qed

lemma pooled_events_subset:
  "set (snd (pooled pk f mw chunksize sched jobs))
     \<subseteq> range PoolCreate \<union> (\<Union>j \<in> set jobs. set (snd (f j)))"
proof (cases "0 < min mw (int (length jobs)) \<and> 1 \<le> chunksize")
  case False
  then show ?thesis by (auto simp: pooled_def Let_def)
next
  case True
  let ?cs = "chunks (nat chunksize) jobs"
  let ?work = "map (process_chunk pk f) ?cs"
  let ?ran = "\<lambda>i. i \<le> first_failure (map fst ?work) \<or> i \<in> set sched"
  let ?logs = "map (\<lambda>i. if ?ran i then snd (?work ! i) else []) [0 ..< length ?work]"
  have "(\<Union>l \<in> set ?logs. set l) \<subseteq> (\<Union>j \<in> set jobs. set (snd (f j)))"
  proof
    fix ev assume "ev \<in> (\<Union>l \<in> set ?logs. set l)"
    then obtain i where i: "i < length ?cs" and ev: "ev \<in> set (snd (?work ! i))"
      by (auto split: if_splits)
    then have "ev \<in> set (snd (serial f (?cs ! i)))" by (simp add: process_chunk_events)
    with serial_events_subset [of f "?cs ! i"]
    obtain j where j: "j \<in> set (?cs ! i)" "ev \<in> set (snd (f j))" by blast
    from i have "?cs ! i \<in> set ?cs" by simp
    from set_chunks [OF this] j(1) have "j \<in> set jobs" by blast
    with j(2) show "ev \<in> (\<Union>j \<in> set jobs. set (snd (f j)))" by blast
  qed
  with set_interleave [of sched ?logs]
  have "set (interleave sched ?logs) \<subseteq> (\<Union>j \<in> set jobs. set (snd (f j)))" by blast
  then show ?thesis
    using True by (auto simp: pooled_def Let_def min_le_iff_disj)
qed

lemma dispatch_events_subset:
  "set (snd (dispatch pk f max_workers chunksize sched jobs))
     \<subseteq> range PoolCreate \<union> (\<Union>j \<in> set jobs. set (snd (f j)))"
proof (cases max_workers)
  case None
  then show ?thesis
    using serial_events_subset [of f jobs] by (auto simp: dispatch_def split: prod.splits)
next
  case (Some mw)
  then show ?thesis
    using pooled_events_subset [of pk f mw chunksize sched jobs] by (simp add: dispatch_def)
qed

subsection \<open>The directory tree\<close>

lemma mkdir_parents_ok:
  assumes "mkdir_parents fs p = Inr fs'" and "p \<noteq> []"
  shows "p \<in> set fs'" and "set fs \<subseteq> set fs'"
proof -
  have "p \<in> set (ancestors p)" using assms(2)
  proof (induction p)
    case Nil
    then show ?case by simp
  next
    case (Cons x xs)
    show ?case
    proof (cases "xs = []")
      case True
      then show ?thesis by simp
    next
      case False
      with Cons.IH have "xs \<in> set (ancestors xs)" by simp
      then show ?thesis by simp
    qed
  qed
  then show "p \<in> set fs'" using assms(1)
    by (auto simp: mkdir_parents_def split: if_splits)
  show "set fs \<subseteq> set fs'" using assms(1)
    by (auto simp: mkdir_parents_def split: if_splits)
qed

lemma make_seed_dirs_ok:
  assumes "make_seed_dirs fs c seeds = (Inr fs', evs)"
  shows "set fs \<subseteq> set fs' \<and> (\<forall>s \<in> set seeds. Mkdir (leaf c s) \<in> set evs \<and> leaf c s \<in> set fs')"
  using assms
proof (induction seeds arbitrary: fs evs)
  case Nil
  then show ?case by simp
next
  case (Cons s seeds)
  from Cons.prems obtain fs1 evs1 where
    m: "mkdir_parents fs (leaf c s) = Inr fs1" and
    r: "make_seed_dirs fs1 c seeds = (Inr fs', evs1)" and
    e: "evs = Mkdir (leaf c s) # evs1"
    by (auto split: sum.splits prod.splits)
  have ne: "leaf c s \<noteq> []" by (simp add: leaf_def)
  note a = mkdir_parents_ok [OF m ne]
  note b = Cons.IH [OF r]
  show ?case using a b e by auto
qed

lemma make_seed_dirs_no_call:
  "make_seed_dirs fs c seeds = (r, evs) \<Longrightarrow> \<forall>ev \<in> set evs. \<not> is_call ev"
  by (induction seeds arbitrary: fs r evs) (auto split: sum.splits prod.splits)

lemma make_dirs_ok:
  assumes "make_dirs e fs cs seeds = (Inr fs', evs)"
  shows "set fs \<subseteq> set fs'
         \<and> (\<forall>c \<in> set cs. \<forall>s \<in> set seeds. Mkdir (leaf c s) \<in> set evs \<and> leaf c s \<in> set fs')"
  using assms
proof (induction cs arbitrary: fs evs)
  case Nil
  then show ?case by simp
next
  case (Cons c cs)
  from Cons.prems obtain fs1 evs1 evs2 where
    m: "make_seed_dirs fs c seeds = (Inr fs1, evs1)" and
    r: "make_dirs e (fs1 @ [[str_int (ID c), ''config.yml'']]) cs seeds = (Inr fs', evs2)" and
    e: "evs = evs1 @ YamlDump [str_int (ID c), ''config.yml''] # evs2"
    by (auto simp: Let_def split: sum.splits prod.splits option.splits)
  note a = make_seed_dirs_ok [OF m]
  note b = Cons.IH [OF r]
  show ?case using a b e by auto
qed

lemma make_dirs_no_call:
  "make_dirs e fs cs seeds = (r, evs) \<Longrightarrow> \<forall>ev \<in> set evs. \<not> is_call ev"
proof (induction cs arbitrary: fs r evs)
  case Nil
  then show ?case by simp
next
  case (Cons c cs)
  obtain r1 evs1 where m: "make_seed_dirs fs c seeds = (r1, evs1)"
    by (cases "make_seed_dirs fs c seeds")
  note a = make_seed_dirs_no_call [OF m]
  show ?case
    using Cons.prems a m Cons.IH
    by (fastforce simp: Let_def split: sum.splits prod.splits option.splits)
qed

lemma prepare_ok:
  assumes "prepare e configs seeds = (Inr fs, evs)"
  shows "\<forall>c \<in> set configs. \<forall>s \<in> set seeds. Mkdir (leaf c s) \<in> set evs \<and> leaf c s \<in> set fs"
proof -
  from assms obtain fs1 evs1 where
    m: "make_dirs e [[''source_files'']] configs seeds = (Inr fs1, evs1)" and
    f: "fs = fs1 @ [[''configs.pkl'']]" and
    ev: "evs = prepare_root e @ [Mkdir [''source_files''], CopySources] @ evs1 @ [PickleDump [''configs.pkl'']]"
    by (auto simp: prepare_def Let_def split: sum.splits prod.splits option.splits)
  show ?thesis using make_dirs_ok [OF m] f ev by auto
qed

lemma prepare_no_call:
  "\<forall>ev \<in> set (snd (prepare e configs seeds)). \<not> is_call ev"
proof -
  obtain r evs where m: "make_dirs e [[''source_files'']] configs seeds = (r, evs)"
    by (cases "make_dirs e [[''source_files'']] configs seeds")
  show ?thesis
    using make_dirs_no_call [OF m] m
    by (auto simp: prepare_def prepare_root_def Let_def split: sum.splits option.splits)
qed

subsection \<open>Job enumeration\<close>

lemma div_mod_row_major:
  fixes i j m :: nat
  assumes "j < m"
  shows "(i * m + j) div m = i" and "(i * m + j) mod m = j"
  using assms by simp_all

lemma jobs_of_nth:
  assumes "i < length configs" and "j < length seeds"
  shows "jobs_of configs seeds ! (i * length seeds + j)
           = (i * length seeds + j, configs ! i, seeds ! j)"
proof -
  let ?m = "length seeds"
  have ne: "seeds \<noteq> []" using assms(2) by auto
  have "i * ?m + j < i * ?m + ?m" using assms(2) by simp
  also have "\<dots> = Suc i * ?m" by simp
  also have "\<dots> \<le> length configs * ?m"
    using assms(1) by (intro mult_le_mono1) simp
  finally have lt: "i * ?m + j < length configs * ?m" .
  have d: "(i * ?m + j) div ?m = i" by (rule div_mod_row_major(1) [OF assms(2)])
  have r: "(i * ?m + j) mod ?m = j" by (rule div_mod_row_major(2) [OF assms(2)])
  show ?thesis
    unfolding jobs_of_def
    using lt ne assms(2) by (simp add: nth_enumerate_eq product_nth d r)
qed

text \<open>
  C1. For configurations of length n and seeds of length m, job enumeration yields
  exactly n*m jobs, their job ids are 0, 1, ..., n*m-1 in this order, the job at position
  i*m+j is (configuration i, seed j) (configuration-major order), and an empty list of
  configurations or of seeds yields no job.
\<close>

theorem jobs_of_enumeration:
  "length (jobs_of configs seeds) = length configs * length seeds
   \<and> map fst (jobs_of configs seeds) = [0 ..< length configs * length seeds]
   \<and> map snd (jobs_of configs seeds)
       = concat (map (\<lambda>c. map (\<lambda>s. (c, s)) seeds) configs)
   \<and> (\<forall>i < length configs. \<forall>j < length seeds.
        jobs_of configs seeds ! (i * length seeds + j)
          = (i * length seeds + j, configs ! i, seeds ! j))
   \<and> (configs = [] \<or> seeds = [] \<longrightarrow> jobs_of configs seeds = [])"
proof (intro conjI)
  show "length (jobs_of configs seeds) = length configs * length seeds"
    by (simp add: jobs_of_def)
  show "map fst (jobs_of configs seeds) = [0 ..< length configs * length seeds]"
    by (simp add: jobs_of_def)
  show "map snd (jobs_of configs seeds)
          = concat (map (\<lambda>c. map (\<lambda>s. (c, s)) seeds) configs)"
    by (simp add: jobs_of_def product_concat_map)
  show "\<forall>i < length configs. \<forall>j < length seeds.
          jobs_of configs seeds ! (i * length seeds + j)
            = (i * length seeds + j, configs ! i, seeds ! j)"
    using jobs_of_nth by blast
  show "configs = [] \<or> seeds = [] \<longrightarrow> jobs_of configs seeds = []"
  proof
    assume "configs = [] \<or> seeds = []"
    then have "length (jobs_of configs seeds) = 0"
      by (auto simp: jobs_of_def)
    then show "jobs_of configs seeds = []" by simp
  qed
qed

theorem jobs_of_enumeration_witness:
  "jobs_of [\<lparr>ID = 0, params = []\<rparr>, \<lparr>ID = 1, params = []\<rparr>] [1, 2]
     = [(0, \<lparr>ID = 0, params = []\<rparr>, 1), (1, \<lparr>ID = 0, params = []\<rparr>, 2),
        (2, \<lparr>ID = 1, params = []\<rparr>, 1), (3, \<lparr>ID = 1, params = []\<rparr>, 2)]
   \<and> jobs_of [\<lparr>ID = 0, params = []\<rparr>, \<lparr>ID = 1, params = []\<rparr>] [1, 2] ! (1 * 2 + 0)
       = (2, \<lparr>ID = 1, params = []\<rparr>, 1)
   \<and> jobs_of [] [1, 2] = []
   \<and> jobs_of [\<lparr>ID = 0, params = []\<rparr>] [] = []"
  using jobs_of_enumeration [of "[\<lparr>ID = 0, params = []\<rparr>, \<lparr>ID = 1, params = []\<rparr>]" "[1, 2]"]
    jobs_of_enumeration [of "[]" "[1, 2]"]
    jobs_of_enumeration [of "[\<lparr>ID = 0, params = []\<rparr>]" "[]"]
  by (simp add: jobs_of_def)


subsection \<open>Device assignment\<close>

text \<open>
  C5. With \<open>use_gpu\<close> true and \<open>gpu_ids\<close> a non-empty list of indices all within
  \<open>[0, k)\<close>, the device of a job is \<open>gpu_ids[job_id mod len(gpu_ids)]\<close>; it is an
  element of \<open>gpu_ids\<close>, and the jobs \<open>job_id\<close> and \<open>job_id + len(gpu_ids)\<close> get
  the same device.
\<close>

theorem assign_device_restricted:
  assumes "ids \<noteq> []" and "\<forall>i \<in> set ids. 0 \<le> i \<and> i < int k"
  shows "assign_device k True (Some ids) job_id = Inr (CUDA (ids ! (job_id mod length ids)))
         \<and> ids ! (job_id mod length ids) \<in> set ids
         \<and> assign_device k True (Some ids) (job_id + length ids)
             = assign_device k True (Some ids) job_id"
proof -
  have ok: "list_all (\<lambda>i. i \<ge> 0 \<and> i < int k) ids"
    using assms(2) by (simp add: list_all_iff)
  have len: "0 < length ids" using assms(1) by simp
  have a: "\<And>n. assign_device k True (Some ids) n = Inr (CUDA (ids ! (n mod length ids)))"
    using ok len by (simp add: assign_device_def)
  have b: "ids ! (job_id mod length ids) \<in> set ids"
    using len by (intro nth_mem) simp
  have c: "(job_id + length ids) mod length ids = job_id mod length ids"
    by simp
  show ?thesis using a b c by simp
qed

theorem assign_device_restricted_witness:
  "assign_device 4 True (Some [2, 3]) 1 = Inr (CUDA 3)
   \<and> assign_device 4 True (Some [2, 3]) (1 + length [2, 3 :: int])
       = assign_device 4 True (Some [2, 3]) 1
   \<and> map (assign_device 4 True (Some [2, 3])) [0, 1, 2, 3]
       = [Inr (CUDA 2), Inr (CUDA 3), Inr (CUDA 2), Inr (CUDA 3)]"
proof -
  have h1: "[2, 3 :: int] \<noteq> []" by simp
  have h2: "\<forall>i \<in> set [2, 3 :: int]. 0 \<le> i \<and> i < int 4" by simp
  have ex: "map (assign_device 4 True (Some [2, 3])) [0, 1, 2, 3]
              = [Inr (CUDA 2), Inr (CUDA 3), Inr (CUDA 2), Inr (CUDA 3)]"
    by code_simp
  show ?thesis
    using assign_device_restricted [OF h1 h2, of 1] ex by simp
qed

text \<open>
  C6, as the claim states it, fails when no accelerator is detected: the modulo by zero
  raises and no device is assigned.
\<close>

theorem assign_device_all_counterexample:
  "assign_device 0 True None 3 = Inl ZeroDivisionError
   \<and> assign_device 0 True None 3 \<noteq> Inr (CUDA (int (3 mod 0)))"
  by (simp add: assign_device_def)

text \<open>
  C6, amended. With \<open>use_gpu\<close> true, \<open>gpu_ids\<close> unset and at least one detected
  accelerator (\<open>k \<ge> 1\<close>), the device id of a job is \<open>job_id mod k\<close>.
\<close>

theorem assign_device_all:
  assumes "0 < k"
  shows "assign_device k True None job_id = Inr (CUDA (int (job_id mod k)))"
  using assms by (simp add: assign_device_def)

theorem assign_device_all_witness:
  "(0::nat) < 4
   \<and> assign_device 4 True None 5 = Inr (CUDA (int (5 mod 4)))
   \<and> map (assign_device 4 True None) [0, 1, 2, 3, 4, 5]
       = map (\<lambda>i. Inr (CUDA i)) [0, 1, 2, 3, 0, 1]"
  using assign_device_all [of 4 5] assign_device_all [of 4 0] assign_device_all [of 4 1]
    assign_device_all [of 4 2] assign_device_all [of 4 3] assign_device_all [of 4 4]
  by simp

text \<open>
  C9. With \<open>use_gpu\<close> false the device is the host CPU for every job id and every value
  of \<open>gpu_ids\<close>; the job's outcome is that of the run function on the CPU, so no error of
  the device assignment can arise, and no device is set and no cache emptied.
\<close>

theorem assign_device_cpu:
  "assign_device k False gpu_ids job_id = Inr CPU
   \<and> inner_run e False gpu_ids run (job_id, c, seed)
       = (run c seed CPU (leaf c seed),
          map (Job job_id) [SetNumThreads 1, PrintJob, Call CPU (leaf c seed)])"
  by (simp add: assign_device_def inner_run_def device_events_def Let_def split: sum.splits)

subsection \<open>The cleanup after a job\<close>

text \<open>
  C10. \<open>torch.cuda.empty_cache()\<close> is executed in a job exactly when \<open>use_gpu\<close> is
  true and the run function was called and returned normally. When the run function raises,
  its exception is the job's outcome and the cache is not emptied.
\<close>

theorem empty_cache_iff:
  "(Job job_id EmptyCache \<in> set (snd (inner_run e use_gpu gpu_ids run (job_id, c, seed)))
      \<longleftrightarrow> use_gpu \<and> (\<exists>d r. assign_device (num_gpu e) use_gpu gpu_ids job_id = Inr d
                          \<and> run c seed d (leaf c seed) = Inr r))
   \<and> (\<forall>d err. assign_device (num_gpu e) use_gpu gpu_ids job_id = Inr d
          \<and> run c seed d (leaf c seed) = Inl err
        \<longrightarrow> fst (inner_run e use_gpu gpu_ids run (job_id, c, seed)) = Inl err
            \<and> Job job_id EmptyCache \<notin> set (snd (inner_run e use_gpu gpu_ids run (job_id, c, seed))))"
  by (auto simp: inner_run_def device_events_def Let_def split: sum.splits device.splits)

theorem empty_cache_iff_witness:
  "assign_device (num_gpu (env_demo 4)) True None 1 = Inr (CUDA 1)
   \<and> run_demo (cfg 0) 2 (CUDA 1) (leaf (cfg 0) 2) = Inl (RunError ''seed 2'')
   \<and> fst (inner_run (env_demo 4) True None run_demo (1, cfg 0, 2)) = Inl (RunError ''seed 2'')
   \<and> Job 1 EmptyCache \<notin> set (snd (inner_run (env_demo 4) True None run_demo (1, cfg 0, 2)))
   \<and> Job 0 EmptyCache \<in> set (snd (inner_run (env_demo 4) True None run_demo (0, cfg 0, 1)))"
proof -
  have a: "assign_device (num_gpu (env_demo 4)) True None 1 = Inr (CUDA 1)"
    by (simp add: assign_device_def env_demo_def)
  have b: "run_demo (cfg 0) 2 (CUDA 1) (leaf (cfg 0) 2) = Inl (RunError ''seed 2'')"
    by (simp add: run_demo_def)
  have c: "assign_device (num_gpu (env_demo 4)) True None 0 = Inr (CUDA 0)"
    by (simp add: assign_device_def env_demo_def)
  have d: "run_demo (cfg 0) 1 (CUDA 0) (leaf (cfg 0) 1) = Inr 1"
    by (simp add: run_demo_def cfg_def)
  show ?thesis
    using a b c d
      empty_cache_iff [of 1 "env_demo 4" True None run_demo "cfg 0" 2]
      empty_cache_iff [of 0 "env_demo 4" True None run_demo "cfg 0" 1]
    by blast
qed

subsection \<open>Dispatch\<close>




text \<open>
  C8, as the claim states it, fails when the list of seeds is empty and a configuration is
  present: no leaf directory, and so no directory of the configuration, is made, line 96
  writes \<open>config.yml\<close> into a directory that does not exist, and \<open>FileNotFoundError\<close>
  is raised before line 134 is reached, in both modes. And for a negative
  \<open>max_workers\<close> the pool is constructed with \<open>min(max_workers, 0) = max_workers\<close>
  workers, not 0.
\<close>

theorem pooled_empty_jobs_counterexample:
  "fst (run_experiment (env_demo 0) [] run_demo [cfg 0] [] (Some 2) 1 False None)
     = Some (Inl FileNotFoundError)
   \<and> fst (run_experiment (env_demo 0) [] run_demo [cfg 0] [] None 1 False None)
     = Some (Inl FileNotFoundError)
   \<and> jobs_of [cfg 0] [] = []
   \<and> min (- 3) (int (length (jobs_of [] [1]))) = - 3
   \<and> fst (run_experiment (env_demo 0) [] run_demo [] [1] (Some (- 3)) 1 False None)
     = Some (Inl ValueError)"
  by code_simp

text \<open>
  C8, amended. When the list of configurations is empty and the archive of the
  configurations is written, there is no job: with an integer \<open>max_workers\<close> the pool is
  constructed with \<open>min(max_workers, 0)\<close> workers, which is 0 for a non-negative
  \<open>max_workers\<close> and \<open>max_workers\<close> itself for a negative one, the constructor raises
  \<open>ValueError\<close>, no pool is created and the run function is not called; with
  \<open>max_workers=None\<close> the same inputs return the empty list. Lines 134-138 on their own
  do the same on every empty job list.
\<close>

theorem pooled_empty_jobs:
  assumes "configs = []" and "pickle_dump e [[''source_files'']] [''configs.pkl''] = None"
  shows "fst (run_experiment e sched run configs seeds (Some mw) chunksize use_gpu gpu_ids)
           = Some (Inl ValueError)
         \<and> (\<forall>n. PoolCreate n
                \<notin> set (snd (run_experiment e sched run configs seeds (Some mw) chunksize
                                use_gpu gpu_ids)))
         \<and> (\<forall>ev \<in> set (snd (run_experiment e sched run configs seeds (Some mw) chunksize
                                use_gpu gpu_ids)). \<not> is_call ev)
         \<and> min mw (int (length (jobs_of configs seeds))) = min mw 0
         \<and> min mw 0 \<le> 0
         \<and> (0 \<le> mw \<longrightarrow> min mw 0 = 0)
         \<and> (mw < 0 \<longrightarrow> min mw 0 = mw)
         \<and> run_experiment e sched run configs seeds None chunksize use_gpu gpu_ids
             = (Some (Inr []),
                prepare_root e
                  @ [Mkdir [''source_files''], CopySources, PickleDump [''configs.pkl''],
                     PrintFinished])
         \<and> dispatch pk f (Some mw) chunksize sched [] = (Some (Inl ValueError), [])
         \<and> dispatch pk f None chunksize sched [] = (Some (Inr []), [])"
proof -
  have j: "jobs_of configs seeds = []" using assms(1) by (simp add: jobs_of_def)
  have p: "prepare e configs seeds
             = (Inr [[''source_files''], [''configs.pkl'']],
                prepare_root e
                  @ [Mkdir [''source_files''], CopySources, PickleDump [''configs.pkl'']])"
    using assms by (simp add: prepare_def)
  have a: "\<And>pk g. dispatch pk g (Some mw) chunksize sched [] = (Some (Inl ValueError), [])"
    by (simp add: dispatch_def pooled_def)
  have b: "\<And>pk g. dispatch pk g None chunksize sched [] = (Some (Inr []), [])"
    by (simp add: dispatch_def)
  have rp: "run_experiment e sched run configs seeds (Some mw) chunksize use_gpu gpu_ids
              = (Some (Inl ValueError),
                 prepare_root e
                   @ [Mkdir [''source_files''], CopySources, PickleDump [''configs.pkl'']])"
    by (simp add: run_experiment_def p j a)
  have rs: "run_experiment e sched run configs seeds None chunksize use_gpu gpu_ids
              = (Some (Inr []),
                 prepare_root e
                   @ [Mkdir [''source_files''], CopySources, PickleDump [''configs.pkl''],
                      PrintFinished])"
    by (simp add: run_experiment_def p j b)
  have c1: "fst (run_experiment e sched run configs seeds (Some mw) chunksize use_gpu gpu_ids)
              = Some (Inl ValueError)"
    by (simp add: rp)
  have c2: "\<forall>n. PoolCreate n
              \<notin> set (snd (run_experiment e sched run configs seeds (Some mw) chunksize
                              use_gpu gpu_ids))"
    by (simp add: rp prepare_root_def)
  have c3: "\<forall>ev \<in> set (snd (run_experiment e sched run configs seeds (Some mw) chunksize
                                use_gpu gpu_ids)). \<not> is_call ev"
    by (simp add: rp prepare_root_def)
  have c4: "min mw (int (length (jobs_of configs seeds))) = min mw 0" by (simp add: j)
  have c5: "min mw 0 \<le> 0" "0 \<le> mw \<longrightarrow> min mw 0 = 0" "mw < 0 \<longrightarrow> min mw 0 = mw"
    by simp_all
  show ?thesis using c1 c2 c3 c4 c5 rs a b by blast
qed

theorem pooled_empty_jobs_witness:
  "fst (run_experiment (env_demo 0) [] run_demo [] [1, 2] (Some 2) 1 False None)
     = Some (Inl ValueError)
   \<and> min 2 (int (length (jobs_of [] [1, 2 :: int]))) = 0
   \<and> fst (run_experiment (env_demo 0) [] run_demo [] [1, 2] None 1 False None) = Some (Inr [])"
proof -
  have h1: "([] :: config list) = []" by simp
  have h2: "pickle_dump (env_demo 0) [[''source_files'']] [''configs.pkl''] = None"
    by (simp add: env_demo_def write_file_def)
  note t = pooled_empty_jobs [OF h1 h2, of "[]" run_demo "[1, 2]" 2 1 False None]
  from t have a: "fst (run_experiment (env_demo 0) [] run_demo [] [1, 2] (Some 2) 1 False None)
                    = Some (Inl ValueError)" by blast
  from t have "min 2 (int (length (jobs_of [] [1, 2 :: int]))) = min (2::int) 0" by blast
  then have b: "min 2 (int (length (jobs_of [] [1, 2 :: int]))) = 0" by simp
  from t have "run_experiment (env_demo 0) [] run_demo [] [1, 2] None 1 False None
                 = (Some (Inr []),
                    prepare_root (env_demo 0)
                      @ [Mkdir [''source_files''], CopySources, PickleDump [''configs.pkl''],
                         PrintFinished])" by blast
  then have c: "fst (run_experiment (env_demo 0) [] run_demo [] [1, 2] None 1 False None)
                  = Some (Inr [])" by simp
  show ?thesis using a b c by blast
qed

subsection \<open>Serial mode stops at the first failure\<close>

lemma started_append: "started (xs @ ys) = started xs @ started ys"
  by (induction xs rule: started.induct) simp_all

lemma inner_run_started: "started (snd (inner_run e use_gpu gpu_ids run (i, c, s))) = [i]"
  by (simp add: inner_run_def device_events_def Let_def split: sum.splits device.splits)

lemma inner_run_tags:
  "ev \<in> set (snd (inner_run e use_gpu gpu_ids run (i, c, s))) \<Longrightarrow> \<exists>a. ev = Job i a"
  by (auto simp: inner_run_def device_events_def Let_def split: sum.splits device.splits)

lemma started_concat_inner_run:
  "started (concat (map (\<lambda>j. snd (inner_run e use_gpu gpu_ids run j)) js)) = map fst js"
proof (induction js)
  case Nil
  then show ?case by simp
next
  case (Cons j js)
  obtain i c s where j: "j = (i, c, s)" by (cases j)
  show ?case using Cons.IH by (simp add: started_append j inner_run_started)
qed

lemma jobs_of_fst_nth: "m < length (jobs_of configs seeds) \<Longrightarrow> fst (jobs_of configs seeds ! m) = m"
  by (simp add: jobs_of_def nth_enumerate_eq)

lemma map_fst_jobs_of: "map fst (jobs_of configs seeds) = [0 ..< length (jobs_of configs seeds)]"
  by (simp add: jobs_of_def)

text \<open>
  C7. In serial mode the jobs are executed one after the other in the order of their job
  ids: the event log is the concatenation of the logs of the jobs, in order. If job k is
  the first job that raises, its exception is the outcome of the dispatch (no result list
  is returned), the log is that of the jobs 0..k, exactly those jobs were started, and no
  event of a job with a larger id occurs. If no job raises, all jobs are started in order
  and a result list is returned.
\<close>

theorem serial_fail_fast:
  "(\<forall>k err.
      k < length (jobs_of configs seeds)
      \<and> (\<forall>i < k. \<exists>r. fst (inner_run e use_gpu gpu_ids run (jobs_of configs seeds ! i)) = Inr r)
      \<and> fst (inner_run e use_gpu gpu_ids run (jobs_of configs seeds ! k)) = Inl err
      \<longrightarrow>
        fst (dispatch pk (inner_run e use_gpu gpu_ids run) None chunksize sched (jobs_of configs seeds))
          = Some (Inl err)
        \<and> snd (dispatch pk (inner_run e use_gpu gpu_ids run) None chunksize sched (jobs_of configs seeds))
            = concat (map (\<lambda>j. snd (inner_run e use_gpu gpu_ids run j))
                       (take (Suc k) (jobs_of configs seeds)))
        \<and> started (snd (dispatch pk (inner_run e use_gpu gpu_ids run) None chunksize sched
                           (jobs_of configs seeds)))
            = [0 ..< Suc k]
        \<and> (\<forall>ev \<in> set (snd (dispatch pk (inner_run e use_gpu gpu_ids run) None chunksize sched
                                 (jobs_of configs seeds))).
              \<forall>i a. ev = Job i a \<longrightarrow> i \<le> k))
   \<and> ((\<forall>i < length (jobs_of configs seeds).
          \<exists>r. fst (inner_run e use_gpu gpu_ids run (jobs_of configs seeds ! i)) = Inr r)
      \<longrightarrow>
        (\<exists>rs. fst (dispatch pk (inner_run e use_gpu gpu_ids run) None chunksize sched
                      (jobs_of configs seeds)) = Some (Inr rs))
        \<and> snd (dispatch pk (inner_run e use_gpu gpu_ids run) None chunksize sched (jobs_of configs seeds))
            = concat (map (\<lambda>j. snd (inner_run e use_gpu gpu_ids run j)) (jobs_of configs seeds))
        \<and> started (snd (dispatch pk (inner_run e use_gpu gpu_ids run) None chunksize sched
                           (jobs_of configs seeds)))
            = [0 ..< length (jobs_of configs seeds)])"
proof -
  let ?F = "inner_run e use_gpu gpu_ids run"
  let ?J = "jobs_of configs seeds"
  let ?D = "dispatch pk ?F None chunksize sched ?J"
  have fail: "fst ?D = Some (Inl err)
      \<and> snd ?D = concat (map (\<lambda>j. snd (?F j)) (take (Suc k) ?J))
      \<and> started (snd ?D) = [0 ..< Suc k]
      \<and> (\<forall>ev \<in> set (snd ?D). \<forall>i a. ev = Job i a \<longrightarrow> i \<le> k)"
    if k: "k < length ?J"
      and ok: "\<forall>i < k. \<exists>r. fst (?F (?J ! i)) = Inr r"
      and bad: "fst (?F (?J ! k)) = Inl err"
    for k err
  proof -
    have split: "?J = take k ?J @ ?J ! k # drop (Suc k) ?J"
      using k by (rule id_take_nth_drop)
    have pre: "\<forall>j \<in> set (take k ?J). \<exists>r. fst (?F j) = Inr r"
    proof
      fix j assume "j \<in> set (take k ?J)"
      then obtain i where "i < length (take k ?J)" "take k ?J ! i = j"
        by (auto simp: in_set_conv_nth)
      then have "i < k" "?J ! i = j" by auto
      with ok show "\<exists>r. fst (?F j) = Inr r" by auto
    qed
    have tk: "take (Suc k) ?J = take k ?J @ [?J ! k]"
      using k by (rule take_Suc_conv_app_nth)
    have s: "serial ?F ?J = (Inl err, concat (map (\<lambda>j. snd (?F j)) (take (Suc k) ?J)))"
      using serial_first_failure [OF pre bad, of "drop (Suc k) ?J"] split tk by simp
    have a: "fst ?D = Some (Inl err)" by (simp add: dispatch_serial_fst s)
    have b: "snd ?D = concat (map (\<lambda>j. snd (?F j)) (take (Suc k) ?J))"
      by (simp add: dispatch_serial_snd s)
    have "started (snd ?D) = map fst (take (Suc k) ?J)"
      unfolding b by (rule started_concat_inner_run)
    also have "\<dots> = take (Suc k) [0 ..< length ?J]"
      by (simp only: take_map [symmetric] map_fst_jobs_of)
    also have "\<dots> = [0 ..< Suc k]" using k by simp
    finally have c: "started (snd ?D) = [0 ..< Suc k]" .
    have d: "\<forall>ev \<in> set (snd ?D). \<forall>i a. ev = Job i a \<longrightarrow> i \<le> k"
    proof (intro ballI allI impI)
      fix ev i a assume ev: "ev \<in> set (snd ?D)" and eq: "ev = Job i a"
      from ev obtain j where j: "j \<in> set (take (Suc k) ?J)" and in_j: "ev \<in> set (snd (?F j))"
        unfolding b by auto
      from j obtain m where m: "m < Suc k" "m < length ?J" "?J ! m = j"
        by (auto simp: in_set_conv_nth)
      obtain c s where jm: "j = (m, c, s)"
        using jobs_of_fst_nth [OF m(2)] m(3) by (cases j) auto
      from inner_run_tags [of ev e use_gpu gpu_ids run m c s] in_j jm eq
      have "i = m" by auto
      with m(1) show "i \<le> k" by simp
    qed
    show ?thesis using a b c d by blast
  qed
  have good: "(\<exists>rs. fst ?D = Some (Inr rs))
      \<and> snd ?D = concat (map (\<lambda>j. snd (?F j)) ?J)
      \<and> started (snd ?D) = [0 ..< length ?J]"
    if ok: "\<forall>i < length ?J. \<exists>r. fst (?F (?J ! i)) = Inr r"
  proof -
    have all: "\<forall>j \<in> set ?J. \<exists>r. fst (?F j) = Inr r"
    proof
      fix j assume "j \<in> set ?J"
      then obtain i where "i < length ?J" "?J ! i = j"
        by (auto simp: in_set_conv_nth)
      with ok show "\<exists>r. fst (?F j) = Inr r" by metis
    qed
    note s = serial_all_ok [OF all]
    have a: "\<exists>rs. fst ?D = Some (Inr rs)" by (simp add: dispatch_serial_fst s)
    have b: "snd ?D = concat (map (\<lambda>j. snd (?F j)) ?J)" by (simp add: dispatch_serial_snd s)
    have "started (snd ?D) = map fst ?J"
      unfolding b by (rule started_concat_inner_run)
    then have c: "started (snd ?D) = [0 ..< length ?J]"
      by (simp only: map_fst_jobs_of)
    show ?thesis using a b c by blast
  qed
  show ?thesis using fail good by blast
qed

theorem serial_fail_fast_witness:
  "fst (dispatch (\<lambda>r. True) (inner_run (env_demo 0) False None run_demo) None 1 [] (jobs_of [cfg 0] [1, 2, 3]))
     = Some (Inl (RunError ''seed 2''))
   \<and> started (snd (dispatch (\<lambda>r. True) (inner_run (env_demo 0) False None run_demo) None 1 []
                      (jobs_of [cfg 0] [1, 2, 3])))
       = [0 ..< Suc 1]"
proof -
  let ?F = "inner_run (env_demo 0) False None run_demo :: job \<Rightarrow> (error + int) \<times> event list"
  let ?J = "jobs_of [cfg 0] [1, 2, 3]"
  have J: "?J = [(0, cfg 0, 1), (1, cfg 0, 2), (2, cfg 0, 3)]"
    by (simp add: jobs_of_def)
  have h1: "1 < length ?J" by (simp add: J)
  have h2: "\<forall>i < 1. \<exists>r. fst (?F (?J ! i)) = Inr r"
    by (simp add: J inner_run_def assign_device_def run_demo_def Let_def)
  have h3: "fst (?F (?J ! 1)) = Inl (RunError ''seed 2'')"
    by (simp add: J inner_run_def assign_device_def run_demo_def Let_def)
  show ?thesis
    using serial_fail_fast [of "[cfg 0]" "[1, 2, 3]" "env_demo 0" False None run_demo
        "\<lambda>r. True" 1 "[]"]
      h1 h2 h3
    by blast
qed

subsection \<open>The whole orchestration\<close>

lemma run_experiment_failed:
  assumes "fst (prepare e configs seeds) = Inl err"
  shows "run_experiment e sched run configs seeds max_workers chunksize use_gpu gpu_ids
           = (Some (Inl err), snd (prepare e configs seeds))"
  using assms by (cases "prepare e configs seeds") (simp add: run_experiment_def)

lemma run_experiment_prepared:
  assumes "fst (prepare e configs seeds) = Inr fs"
  shows "fst (run_experiment e sched run configs seeds max_workers chunksize use_gpu gpu_ids)
           = fst (dispatch (picklable e) (inner_run e use_gpu gpu_ids run) max_workers chunksize sched
                    (jobs_of configs seeds))"
    and "\<exists>tl. snd (run_experiment e sched run configs seeds max_workers chunksize use_gpu gpu_ids)
           = snd (prepare e configs seeds)
             @ snd (dispatch (picklable e) (inner_run e use_gpu gpu_ids run) max_workers chunksize sched
                      (jobs_of configs seeds))
             @ tl \<and> set tl \<subseteq> {PrintFinished}"
  using assms
  by (cases "prepare e configs seeds";
      cases "dispatch (picklable e) (inner_run e use_gpu gpu_ids run) max_workers chunksize sched
               (jobs_of configs seeds)";
      auto simp: run_experiment_def split: option.splits sum.splits)+

lemma dispatch_no_call_events:
  assumes "\<forall>j \<in> set jobs. \<forall>ev \<in> set (snd (f j)). \<not> is_call ev"
  shows "\<forall>ev \<in> set (snd (dispatch pk f max_workers chunksize sched jobs)). \<not> is_call ev"
proof
  fix ev assume "ev \<in> set (snd (dispatch pk f max_workers chunksize sched jobs))"
  with dispatch_events_subset [of pk f max_workers chunksize sched jobs]
  have "ev \<in> range PoolCreate \<or> (\<exists>j \<in> set jobs. ev \<in> set (snd (f j)))" by blast
  with assms show "\<not> is_call ev" by auto
qed

lemma inner_run_bad_ids:
  assumes "\<exists>i \<in> set ids. i < 0 \<or> int (num_gpu e) \<le> i"
  shows "inner_run e True (Some ids) run (i, c, s) = (Inl AssertionError, [Job i (SetNumThreads 1)])"
proof -
  from assms obtain i where i: "i \<in> set ids" "i < 0 \<or> int (num_gpu e) \<le> i" by blast
  then have "\<not> (i \<ge> 0 \<and> i < int (num_gpu e))" by linarith
  with i(1) have "\<not> list_all (\<lambda>i. i \<ge> 0 \<and> i < int (num_gpu e)) ids"
    unfolding list_all_iff by blast
  then show ?thesis by (simp add: inner_run_def assign_device_def)
qed

lemma length_jobs_of: "length (jobs_of configs seeds) = length configs * length seeds"
  by (simp add: jobs_of_def)

text \<open>
  C3, as the claim states it, fails when there is no job: the range check of
  \<open>gpu_ids\<close> sits inside \<open>_run\<close>, so with an empty job list nothing checks it and
  serial mode returns the empty result list.
\<close>

theorem gpu_ids_out_of_range_counterexample:
  "run_experiment (env_demo 4) [] run_demo [] [1] None 1 True (Some [7])
     = (Some (Inr []),
        [MkdirRoot, Mkdir [''source_files''], CopySources, PickleDump [''configs.pkl''],
         PrintFinished])"
  by code_simp

text \<open>
  C3, amended. When \<open>use_gpu\<close> is true and \<open>gpu_ids\<close> has an element that is negative
  or not below the detected device count, the caller's run function is never called, in
  serial and in pooled mode; if there is at least one job the orchestration raises; and
  once the directory tree is prepared, with at least one job and valid pool arguments, the
  exception is the \<open>AssertionError\<close> of the first job.
\<close>

theorem gpu_ids_out_of_range:
  assumes "\<exists>i \<in> set ids. i < 0 \<or> int (num_gpu e) \<le> i"
  shows "(\<forall>ev \<in> set (snd (run_experiment e sched run configs seeds max_workers chunksize True
                             (Some ids))). \<not> is_call ev)
         \<and> (configs \<noteq> [] \<and> seeds \<noteq> [] \<longrightarrow>
              (\<exists>err. fst (run_experiment e sched run configs seeds max_workers chunksize True
                            (Some ids)) = Some (Inl err)))
         \<and> (\<forall>fs. fst (prepare e configs seeds) = Inr fs \<and> configs \<noteq> [] \<and> seeds \<noteq> []
                \<and> (max_workers = None
                     \<or> (\<exists>mw. max_workers = Some mw \<and> 1 \<le> mw \<and> 1 \<le> chunksize))
              \<longrightarrow> fst (run_experiment e sched run configs seeds max_workers chunksize True
                         (Some ids)) = Some (Inl AssertionError))"
proof -
  let ?F = "inner_run e True (Some ids) run"
  let ?J = "jobs_of configs seeds"
  let ?R = "run_experiment e sched run configs seeds max_workers chunksize True (Some ids)"
  let ?D = "dispatch (picklable e) ?F max_workers chunksize sched ?J"
  have F: "\<And>j. ?F j = (Inl AssertionError, [Job (fst j) (SetNumThreads 1)])"
  proof -
    fix j :: job
    obtain i c s where "j = (i, c, s)" by (cases j)
    then show "?F j = (Inl AssertionError, [Job (fst j) (SetNumThreads 1)])"
      using inner_run_bad_ids [OF assms] by simp
  qed
  have nc: "\<forall>ev \<in> set (snd ?D). \<not> is_call ev"
    by (rule dispatch_no_call_events) (simp add: F)
  have a: "\<forall>ev \<in> set (snd ?R). \<not> is_call ev"
  proof (cases "fst (prepare e configs seeds)")
    case (Inl err)
    show ?thesis
      using prepare_no_call [of e configs seeds]
      by (simp add: run_experiment_failed [OF Inl])
  next
    case (Inr fs)
    from run_experiment_prepared(2) [OF Inr, of sched run max_workers chunksize True "Some ids"]
    obtain tl where "snd ?R = snd (prepare e configs seeds) @ snd ?D @ tl"
      and "set tl \<subseteq> {PrintFinished}" by blast
    then show ?thesis
      using prepare_no_call [of e configs seeds] nc by auto
  qed
  have ser: "fst (serial ?F ?J) = Inl AssertionError" if "?J \<noteq> []"
  proof -
    from that obtain j js where "?J = j # js" by (cases ?J) auto
    then show ?thesis by (simp add: F)
  qed
  have ne: "?J \<noteq> []" if "configs \<noteq> []" "seeds \<noteq> []"
  proof -
    have "0 < length ?J" using that by (simp add: length_jobs_of)
    then show ?thesis by simp
  qed
  have disp_ok: "fst ?D = Some (Inl AssertionError)"
    if "?J \<noteq> []" "max_workers = None \<or> (\<exists>mw. max_workers = Some mw \<and> 1 \<le> mw \<and> 1 \<le> chunksize)"
  proof (cases max_workers)
    case None
    then show ?thesis using ser [OF that(1)] by (simp add: dispatch_serial_fst)
  next
    case (Some mw)
    with that(2) have mw: "1 \<le> mw" "1 \<le> chunksize" by auto
    from that(1) obtain j js where J: "?J = j # js" by (cases ?J) auto
    have pos: "0 < min mw (int (length (j # js)))" using mw(1) by simp
    have "fst (?F j) = Inl AssertionError" by (simp add: F)
    from pooled_first_job_fails
      [where f = "inner_run e True (Some ids) run" and pk = "picklable e" and sched = sched,
        OF pos mw(2) this]
    show ?thesis using Some J by (simp add: dispatch_def reraise_def)
  qed
  have disp_err: "\<exists>err. fst ?D = Some (Inl err)" if "?J \<noteq> []"
  proof (cases "max_workers = None \<or> (\<exists>mw. max_workers = Some mw \<and> 1 \<le> mw \<and> 1 \<le> chunksize)")
    case True
    from disp_ok [OF that True] show ?thesis by blast
  next
    case False
    then obtain mw where mw: "max_workers = Some mw" "\<not> (1 \<le> mw \<and> 1 \<le> chunksize)"
      by (cases max_workers) auto
    then have "fst ?D = Some (Inl ValueError)"
      by (auto simp: dispatch_def pooled_def Let_def min_le_iff_disj)
    then show ?thesis by blast
  qed
  have b: "\<exists>err. fst ?R = Some (Inl err)" if "configs \<noteq> []" "seeds \<noteq> []"
  proof (cases "fst (prepare e configs seeds)")
    case (Inl err)
    then show ?thesis by (simp add: run_experiment_failed [OF Inl])
  next
    case (Inr fs)
    show ?thesis
      using disp_err [OF ne [OF that]]
      by (simp add: run_experiment_prepared(1) [OF Inr])
  qed
  have c: "fst ?R = Some (Inl AssertionError)"
    if "fst (prepare e configs seeds) = Inr fs" "configs \<noteq> []" "seeds \<noteq> []"
      "max_workers = None \<or> (\<exists>mw. max_workers = Some mw \<and> 1 \<le> mw \<and> 1 \<le> chunksize)" for fs
    using disp_ok [OF ne [OF that(2,3)] that(4)]
    by (simp add: run_experiment_prepared(1) [OF that(1)])
  show ?thesis using a b c by blast
qed

theorem gpu_ids_out_of_range_witness:
  "fst (run_experiment (env_demo 4) [] run_demo [cfg 0] [1, 2] None 1 True (Some [2, 7]))
     = Some (Inl AssertionError)
   \<and> filter is_call
        (snd (run_experiment (env_demo 4) [] run_demo [cfg 0] [1, 2] None 1 True (Some [2, 7])))
       = []"
proof -
  let ?R = "run_experiment (env_demo 4) [] run_demo [cfg 0] [1, 2] None 1 True (Some [2, 7])"
  have bad: "\<exists>i \<in> set [2, 7 :: int]. i < 0 \<or> int (num_gpu (env_demo 4)) \<le> i"
    by (simp add: env_demo_def)
  have p: "fst (prepare (env_demo 4) [cfg 0] [1, 2])
             = Inr [[''source_files''], [''0''], [''0'', ''1''], [''0'', ''2''],
                    [''0'', ''config.yml''], [''configs.pkl'']]"
    by code_simp
  have ne: "[cfg 0] \<noteq> []" "[1, 2 :: int] \<noteq> []" by simp_all
  note t = gpu_ids_out_of_range [OF bad, of "[]" run_demo "[cfg 0]" "[1, 2]" None 1]
  from t have "\<forall>ev \<in> set (snd ?R). \<not> is_call ev" by blast
  then have a: "filter is_call (snd ?R) = []" by (simp add: filter_empty_conv)
  from t p ne have b: "fst ?R = Some (Inl AssertionError)" by blast
  show ?thesis using a b by blast
qed

text \<open>
  C4. For every configuration c and seed s of the inputs, in serial and in pooled mode and
  whatever the order in which the pool processes the jobs: if the run function is called
  at all, \<open>mkdir\<close> of the leaf directory of (c, s) occurs in the event log before the
  first call; the directory is in the tree that the preparation returns; and if the
  preparation raises, the run function is never called.
\<close>

theorem leaf_dirs_before_first_call:
  assumes "c \<in> set configs" and "s \<in> set seeds"
  shows "((\<exists>ev \<in> set (snd (run_experiment e sched run configs seeds max_workers chunksize
                              use_gpu gpu_ids)). is_call ev)
          \<longrightarrow> Mkdir (leaf c s)
                \<in> set (takeWhile (\<lambda>ev. \<not> is_call ev)
                         (snd (run_experiment e sched run configs seeds max_workers chunksize
                                 use_gpu gpu_ids))))
         \<and> (\<forall>fs. fst (prepare e configs seeds) = Inr fs \<longrightarrow> leaf c s \<in> set fs)
         \<and> (\<forall>err. fst (prepare e configs seeds) = Inl err \<longrightarrow>
               (\<forall>ev \<in> set (snd (run_experiment e sched run configs seeds max_workers chunksize
                                   use_gpu gpu_ids)). \<not> is_call ev))"
proof -
  let ?R = "run_experiment e sched run configs seeds max_workers chunksize use_gpu gpu_ids"
  let ?P = "prepare e configs seeds"
  have failed: "\<forall>ev \<in> set (snd ?R). \<not> is_call ev" if "fst ?P = Inl err" for err
    using prepare_no_call [of e configs seeds] by (simp add: run_experiment_failed [OF that])
  have ok: "leaf c s \<in> set fs \<and> Mkdir (leaf c s) \<in> set (snd ?P)" if "fst ?P = Inr fs" for fs
  proof -
    from that have "?P = (Inr fs, snd ?P)" by (cases ?P) simp
    from prepare_ok [OF this] assms show ?thesis by blast
  qed
  have first: "Mkdir (leaf c s) \<in> set (takeWhile (\<lambda>ev. \<not> is_call ev) (snd ?R))"
    if call: "\<exists>ev \<in> set (snd ?R). is_call ev"
  proof (cases "fst ?P")
    case (Inl err)
    with failed call show ?thesis by blast
  next
    case (Inr fs)
    from run_experiment_prepared(2) [OF Inr, of sched run max_workers chunksize use_gpu gpu_ids]
    obtain rest where r: "snd ?R = snd ?P @ rest" by auto
    have "takeWhile (\<lambda>ev. \<not> is_call ev) (snd ?P @ rest)
            = snd ?P @ takeWhile (\<lambda>ev. \<not> is_call ev) rest"
      using prepare_no_call [of e configs seeds] by (intro takeWhile_append2) blast
    then show ?thesis using ok [OF Inr] by (simp add: r)
  qed
  show ?thesis using first ok failed by blast
qed

theorem leaf_dirs_before_first_call_witness:
  "Mkdir (leaf (cfg 1) 3)
     \<in> set (takeWhile (\<lambda>ev. \<not> is_call ev)
              (snd (run_experiment (env_demo 0) [3, 1] run_demo [cfg 0, cfg 1] [1, 3] (Some 2) 1
                      False None)))
   \<and> leaf (cfg 1) 3 = [''1'', ''3'']"
proof -
  have h1: "cfg 1 \<in> set [cfg 0, cfg 1]" by simp
  have h2: "(3::int) \<in> set [1, 3]" by simp
  have h3: "\<exists>ev \<in> set (snd (run_experiment (env_demo 0) [3, 1] run_demo [cfg 0, cfg 1] [1, 3]
                               (Some 2) 1 False None)). is_call ev"
    by code_simp
  have l: "leaf (cfg 1) 3 = [''1'', ''3'']" by code_simp
  show ?thesis
    using leaf_dirs_before_first_call [OF h1 h2, of "env_demo 0" "[3, 1]" run_demo "Some 2" 1
        False None] h3 l
    by blast
qed

end
